theory Spec2Isabelle
  imports Complex_Main
begin

section \<open>Data model\<close>

text \<open>
  The module \<^verbatim>\<open>mzm_generation.py\<close> is embedded function by function.
  Python's \<^verbatim>\<open>int\<close> is \<^typ>\<open>int\<close>. Python's \<^verbatim>\<open>float\<close> and numpy's
  \<^verbatim>\<open>complex128\<close> are embedded as \<^typ>\<open>real\<close> and \<^typ>\<open>complex\<close>: the
  arithmetic is exact, so rounding, overflow and the special values of IEEE 754 are
  outside the model. An exception is a value \<open>Inl e\<close> of the result type.
\<close>

datatype error = ValueError | IndexError | ZeroDivisionError

text \<open>
  A \<^verbatim>\<open>Dict[str, int]\<close> of measurement counts is the list of its items in
  iteration order (a Python dictionary iterates in insertion order).
\<close>

type_synonym counts = "(string \<times> int) list"

section \<open>Estimators\<close>

text \<open>\<^verbatim>\<open>sum(counts.values())\<close>\<close>

definition sum_values :: "counts \<Rightarrow> int" where
  "sum_values counts = sum_list (map snd counts)"







text \<open>
  A \<^verbatim>\<open>SparsePauliOp\<close> is the list \<^verbatim>\<open>zip(hamiltonian.paulis, hamiltonian.coeffs)\<close>.
  A Pauli term carries its two boolean masks \<^verbatim>\<open>term.z\<close> and \<^verbatim>\<open>term.x\<close>.
\<close>

datatype pauli = Pauli (pauli_z: "bool list") (pauli_x: "bool list")

type_synonym sparse_pauli_op = "(pauli \<times> complex) list"

text \<open>\<^verbatim>\<open>np.any\<close> of a boolean mask.\<close>

fun np_any :: "bool list \<Rightarrow> bool" where
  "np_any [] = False"
| "np_any (b # bs) = (b \<or> np_any bs)"

text \<open>
  \<^verbatim>\<open>sum(1 for i, b in enumerate(bitstring) if pauli_string[i] and b == "1")\<close>,
  from position \<open>i\<close> on. \<^verbatim>\<open>pauli_string[i]\<close> is read for every position of the
  bitstring: numpy raises \<^verbatim>\<open>IndexError\<close> past the end of the mask.
\<close>

fun masked_parity :: "bool list \<Rightarrow> nat \<Rightarrow> string \<Rightarrow> error + nat" where
  "masked_parity pauli_string i [] = Inr 0"
| "masked_parity pauli_string i (b # rest) =
     (if length pauli_string \<le> i then Inl IndexError
      else case masked_parity pauli_string (Suc i) rest of
             Inl e \<Rightarrow> Inl e
           | Inr parity \<Rightarrow>
               Inr ((if pauli_string ! i \<and> b = CHR ''1'' then 1 else 0) + parity))"

text \<open>
  The inner loop over \<^verbatim>\<open>counts.items()\<close>:
  \<^verbatim>\<open>term_expectation += (-1) ** parity * count\<close>.
\<close>

fun term_loop :: "bool list \<Rightarrow> real \<Rightarrow> counts \<Rightarrow> error + real" where
  "term_loop pauli_string term_expectation [] = Inr term_expectation"
| "term_loop pauli_string term_expectation ((bitstring, count) # rest) =
     (case masked_parity pauli_string 0 bitstring of
        Inl e \<Rightarrow> Inl e
      | Inr parity \<Rightarrow>
          term_loop pauli_string (term_expectation + of_int ((- 1) ^ parity * count)) rest)"

text \<open>
  The loop over the terms, with the accumulator \<^verbatim>\<open>hamiltonian_expectation\<close>. The
  \<^verbatim>\<open>if\<close>/\<^verbatim>\<open>elif\<close> chain selects \<^verbatim>\<open>(counts, shots, pauli_string)\<close>; the
  \<^verbatim>\<open>else\<close> branch adds the coefficient and continues. \<^verbatim>\<open>term_expectation /= shots\<close>
  divides a Python float by a Python int and raises \<^verbatim>\<open>ZeroDivisionError\<close> at zero.
\<close>

fun hamiltonian_loop ::
  "counts \<Rightarrow> int \<Rightarrow> counts \<Rightarrow> int \<Rightarrow> complex \<Rightarrow> sparse_pauli_op \<Rightarrow> error + complex" where
  "hamiltonian_loop counts_z shots_z counts_x shots_x hamiltonian_expectation [] =
     Inr hamiltonian_expectation"
| "hamiltonian_loop counts_z shots_z counts_x shots_x hamiltonian_expectation
     ((term, coeff) # rest) =
     (case (if np_any (pauli_z term) then Some (counts_z, shots_z, pauli_z term)
            else if np_any (pauli_x term) then Some (counts_x, shots_x, pauli_x term)
            else None) of
        None \<Rightarrow>
          hamiltonian_loop counts_z shots_z counts_x shots_x
            (hamiltonian_expectation + coeff) rest
      | Some (counts, shots, pauli_string) \<Rightarrow>
          (case term_loop pauli_string 0 counts of
             Inl e \<Rightarrow> Inl e
           | Inr term_expectation \<Rightarrow>
               if shots = 0 then Inl ZeroDivisionError
               else hamiltonian_loop counts_z shots_z counts_x shots_x
                      (hamiltonian_expectation
                         + coeff * complex_of_real (term_expectation / of_int shots))
                      rest))"

definition compute_measure_hamiltonian ::
  "counts \<Rightarrow> counts \<Rightarrow> sparse_pauli_op \<Rightarrow> error + real" where
  "compute_measure_hamiltonian counts_z counts_x hamiltonian =
     (let shots_z = sum_values counts_z;
          shots_x = sum_values counts_x
      in case hamiltonian_loop counts_z shots_z counts_x shots_x 0 hamiltonian of
           Inl e \<Rightarrow> Inl e
         | Inr hamiltonian_expectation \<Rightarrow> Inr (Re hamiltonian_expectation))"

text \<open>
  The dispatch as the specification words it. The statistic of a mask against a
  mapping: for each bitstring the parity over the flagged positions whose bit is '1',
  the sum of \<open>(-1) ^ parity\<close> times the count, normalised by the sum of the counts of
  that mapping. A bitstring longer than the mask is an \<^verbatim>\<open>IndexError\<close>, a zero total
  a \<^verbatim>\<open>ZeroDivisionError\<close>; the index error comes first.
\<close>

definition flagged_ones :: "bool list \<Rightarrow> string \<Rightarrow> nat" where
  "flagged_ones pauli_string bitstring =
     length (filter (\<lambda>i. pauli_string ! i \<and> bitstring ! i = CHR ''1'') [0..<length bitstring])"

fun fits_mask :: "bool list \<Rightarrow> counts \<Rightarrow> bool" where
  "fits_mask pauli_string [] = True"
| "fits_mask pauli_string ((bitstring, count) # rest) =
     (length bitstring \<le> length pauli_string \<and> fits_mask pauli_string rest)"

definition mask_statistic :: "bool list \<Rightarrow> counts \<Rightarrow> error + real" where
  "mask_statistic pauli_string counts =
     (if \<not> fits_mask pauli_string counts then Inl IndexError
      else if sum_values counts = 0 then Inl ZeroDivisionError
      else Inr ((\<Sum>(bitstring, count) \<leftarrow> counts.
                   (- 1) ^ flagged_ones pauli_string bitstring * of_int count)
                / of_int (sum_values counts)))"

text \<open>
  A term with a Z factor is evaluated against \<open>counts_z\<close> with its Z mask; otherwise a
  term with an X factor against \<open>counts_x\<close> with its X mask; otherwise the term
  contributes its coefficient.
\<close>

definition term_contribution :: "counts \<Rightarrow> counts \<Rightarrow> pauli \<times> complex \<Rightarrow> error + complex" where
  "term_contribution counts_z counts_x tc =
     (case tc of (term, coeff) \<Rightarrow>
        if np_any (pauli_z term) then
          (case mask_statistic (pauli_z term) counts_z of
             Inl e \<Rightarrow> Inl e | Inr v \<Rightarrow> Inr (coeff * complex_of_real v))
        else if np_any (pauli_x term) then
          (case mask_statistic (pauli_x term) counts_x of
             Inl e \<Rightarrow> Inl e | Inr v \<Rightarrow> Inr (coeff * complex_of_real v))
        else Inr coeff)"

text \<open>The sum of the contributions in order; the first exception ends the sum.\<close>

fun sum_contributions :: "complex \<Rightarrow> (error + complex) list \<Rightarrow> error + complex" where
  "sum_contributions acc [] = Inr acc"
| "sum_contributions acc (Inl e # rest) = Inl e"
| "sum_contributions acc (Inr v # rest) = sum_contributions (acc + v) rest"


section \<open>Matrices\<close>

text \<open>
  A two-dimensional numpy array is the list of its rows. \<open>mat_shape r c A\<close> says that
  \<open>A\<close> has \<open>r\<close> rows of \<open>c\<close> entries.
\<close>

type_synonym 'a matrix = "'a list list"

definition mat_shape :: "nat \<Rightarrow> nat \<Rightarrow> 'a matrix \<Rightarrow> bool" where
  "mat_shape r c A = (length A = r \<and> list_all (\<lambda>row. length row = c) A)"

definition ncols :: "'a matrix \<Rightarrow> nat" where
  "ncols A = (case A of [] \<Rightarrow> 0 | row # _ \<Rightarrow> length row)"

text \<open>
  \<^verbatim>\<open>np.eye(N)\<close> and \<^verbatim>\<open>np.ones(N)\<close>: a negative dimension raises
  \<^verbatim>\<open>ValueError\<close>.
\<close>

definition np_eye :: "int \<Rightarrow> error + real matrix" where
  "np_eye N =
     (if N < 0 then Inl ValueError
      else Inr (map (\<lambda>i. map (\<lambda>j. if i = j then 1 else 0) [0..<nat N]) [0..<nat N]))"

definition np_ones :: "int \<Rightarrow> error + real list" where
  "np_ones N = (if N < 0 then Inl ValueError else Inr (replicate (nat N) 1))"

text \<open>
  \<^verbatim>\<open>np.diag(v, k)\<close> of a one-dimensional \<open>v\<close>: the square array of side
  \<open>len(v) + |k|\<close> with \<open>v\<close> on the \<open>k\<close>-th diagonal (entries \<open>(i, i + k)\<close>), zero
  elsewhere.
\<close>

definition np_diag :: "real list \<Rightarrow> int \<Rightarrow> real matrix" where
  "np_diag v k =
     (let n = length v + nat \<bar>k\<bar>
      in map (\<lambda>i. map (\<lambda>j. if int j - int i = k then v ! (if 0 \<le> k then i else j) else 0)
                    [0..<n]) [0..<n])"

text \<open>
  Elementwise arithmetic of arrays. Wherever two arrays are added or subtracted in
  this module they have the same shape, so broadcasting does not arise.
\<close>

definition mat_add :: "'a::plus matrix \<Rightarrow> 'a matrix \<Rightarrow> 'a matrix" where
  "mat_add A B = map2 (map2 (+)) A B"

definition mat_sub :: "'a::minus matrix \<Rightarrow> 'a matrix \<Rightarrow> 'a matrix" where
  "mat_sub A B = map2 (map2 (-)) A B"

definition scalar_mul :: "'a::times \<Rightarrow> 'a matrix \<Rightarrow> 'a matrix" where
  "scalar_mul c A = map (map ((*) c)) A"

definition mat_neg :: "'a::uminus matrix \<Rightarrow> 'a matrix" where
  "mat_neg A = map (map uminus) A"

definition mat_conj :: "complex matrix \<Rightarrow> complex matrix" where
  "mat_conj A = map (map cnj) A"

text \<open>
  \<^verbatim>\<open>np.block([[a, b], [c, d]])\<close>: the blocks of each inner list are concatenated
  along the last axis, the two results along the first. Blocks that do not fit raise
  \<^verbatim>\<open>ValueError\<close>.
\<close>

definition hstack :: "'a matrix \<Rightarrow> 'a matrix \<Rightarrow> error + 'a matrix" where
  "hstack A B = (if length A = length B then Inr (map2 (@) A B) else Inl ValueError)"

definition vstack :: "'a matrix \<Rightarrow> 'a matrix \<Rightarrow> error + 'a matrix" where
  "vstack A B = (if ncols A = ncols B then Inr (A @ B) else Inl ValueError)"

definition np_block :: "'a matrix \<Rightarrow> 'a matrix \<Rightarrow> 'a matrix \<Rightarrow> 'a matrix \<Rightarrow> error + 'a matrix" where
  "np_block a b c d =
     (case hstack a b of
        Inl e \<Rightarrow> Inl e
      | Inr top_row \<Rightarrow>
          (case hstack c d of
             Inl e \<Rightarrow> Inl e
           | Inr bottom_row \<Rightarrow> vstack top_row bottom_row))"

section \<open>Hamiltonian builder\<close>

record 'a QuadraticHamiltonian =
  hermitian_part :: "'a matrix"
  antisymmetric_part :: "'a matrix"

definition kitaev_hamiltonian ::
  "int \<Rightarrow> real \<Rightarrow> real \<Rightarrow> real \<Rightarrow> error + real QuadraticHamiltonian" where
  "kitaev_hamiltonian n_modes tunneling superconducting chemical_potential =
     (case np_eye n_modes of
        Inl e \<Rightarrow> Inl e
      | Inr eye \<Rightarrow>
          (case np_ones (n_modes - 1) of
             Inl e \<Rightarrow> Inl e
           | Inr ones \<Rightarrow>
               let upper_diag = np_diag ones 1;
                   lower_diag = np_diag ones (- 1)
               in Inr \<lparr>hermitian_part =
                          mat_add (scalar_mul (- tunneling) (mat_add upper_diag lower_diag))
                                  (scalar_mul chemical_potential eye),
                        antisymmetric_part =
                          scalar_mul superconducting (mat_sub upper_diag lower_diag)\<rparr>))"

definition bdg_hamiltonian :: "complex QuadraticHamiltonian \<Rightarrow> error + complex matrix" where
  "bdg_hamiltonian hamiltonian =
     np_block (mat_neg (mat_conj (hermitian_part hamiltonian)))
              (mat_neg (mat_conj (antisymmetric_part hamiltonian)))
              (antisymmetric_part hamiltonian)
              (hermitian_part hamiltonian)"

text \<open>The four blocks of the Bogoliubov-de Gennes matrix, laid out as rows.\<close>

definition bdg_blocks :: "complex matrix \<Rightarrow> complex matrix \<Rightarrow> complex matrix" where
  "bdg_blocks H A =
     map2 (@) (mat_neg (mat_conj H)) (mat_neg (mat_conj A)) @ map2 (@) A H"

text \<open>
  The matrix with \<open>lo\<close> on the sub-diagonal, \<open>d\<close> on the diagonal, \<open>up\<close> on the
  super-diagonal and zero elsewhere.
\<close>

definition tridiagonal :: "nat \<Rightarrow> real \<Rightarrow> real \<Rightarrow> real \<Rightarrow> real matrix" where
  "tridiagonal n lo d up =
     map (\<lambda>i. map (\<lambda>j. if j = i + 1 then up else if i = j + 1 then lo
                        else if i = j then d else 0) [0..<n]) [0..<n]"

text \<open>Transpose, conjugate transpose, and the two symmetry properties.\<close>

definition mat_transpose :: "'a matrix \<Rightarrow> 'a matrix" where
  "mat_transpose A = map (\<lambda>j. map (\<lambda>row. row ! j) A) [0..<ncols A]"

definition is_hermitian :: "complex matrix \<Rightarrow> bool" where
  "is_hermitian A = (A = mat_conj (mat_transpose A))"

definition is_antisymmetric :: "complex matrix \<Rightarrow> bool" where
  "is_antisymmetric A = (mat_transpose A = mat_neg A)"

section \<open>Task descriptor\<close>

text \<open>\<^verbatim>\<open>str\<close> of an integer: its decimal digits, with a minus sign when negative.\<close>

definition digit_char :: "nat \<Rightarrow> char" where
  "digit_char d = ''0123456789'' ! d"

fun str_nat :: "nat \<Rightarrow> string" where
  "str_nat n = (if n < 10 then [digit_char n] else str_nat (n div 10) @ [digit_char (n mod 10)])"

declare str_nat.simps [simp del]

definition str_int :: "int \<Rightarrow> string" where
  "str_int i = (if i < 0 then CHR ''-'' # str_nat (nat (- i)) else str_nat (nat i))"

text \<open>
  \<^verbatim>\<open>str\<close> of a tuple of integers: \<^verbatim>\<open>()\<close>, \<^verbatim>\<open>(5,)\<close>, \<^verbatim>\<open>(1, 2, 3)\<close>.
\<close>

fun join_comma :: "string list \<Rightarrow> string" where
  "join_comma [] = []"
| "join_comma [s] = s"
| "join_comma (s # t # ss) = s @ '', '' @ join_comma (t # ss)"

definition str_tuple :: "int list \<Rightarrow> string" where
  "str_tuple xs =
     (case xs of
        [x] \<Rightarrow> ''('' @ str_int x @ '',)''
      | _ \<Rightarrow> ''('' @ join_comma (map str_int xs) @ '')'')"

text \<open>
  The format specification \<^verbatim>\<open>.2f\<close>: the value rounded to two decimals, ties to
  even, printed with its sign, its integer digits, a point and two digits.
\<close>

definition round_half_even :: "real \<Rightarrow> int" where
  "round_half_even v =
     (let f = \<lfloor>v\<rfloor>; d = v - of_int f
      in if d < 1 / 2 then f else if 1 / 2 < d then f + 1
         else if even f then f else f + 1)"

definition format_2f :: "real \<Rightarrow> string" where
  "format_2f v =
     (let m = nat (round_half_even (\<bar>v\<bar> * 100))
      in (if v < 0 then ''-'' else [])
         @ str_nat (m div 100) @ ''.''
         @ [digit_char (m mod 100 div 10), digit_char (m mod 10)])"

text \<open>\<^verbatim>\<open>os.path.join\<close> of \<^verbatim>\<open>posixpath\<close>.\<close>

definition starts_with_sep :: "string \<Rightarrow> bool" where
  "starts_with_sep b = (case b of [] \<Rightarrow> False | ch # _ \<Rightarrow> ch = CHR ''/'')"

definition ends_with_sep :: "string \<Rightarrow> bool" where
  "ends_with_sep path = (path \<noteq> [] \<and> last path = CHR ''/'')"

fun os_path_join :: "string \<Rightarrow> string list \<Rightarrow> string" where
  "os_path_join path [] = path"
| "os_path_join path (b # p) =
     os_path_join (if starts_with_sep b then b
                   else if path = [] \<or> ends_with_sep path then path @ b
                   else path @ ''/'' @ b) p"

record KitaevHamiltonianTask =
  experiment_id :: string
  n_modes :: int
  tunneling :: real
  superconducting :: real
  chemical_potential :: real
  occupied_orbitals :: "int list"
  shots :: "int list"

definition filename :: "KitaevHamiltonianTask \<Rightarrow> string" where
  "filename self =
     os_path_join (experiment_id self)
       [''n'' @ str_int (n_modes self) @ ''t'' @ format_2f (tunneling self)
          @ ''_Delta'' @ format_2f (superconducting self)
          @ ''_mu'' @ format_2f (chemical_potential self),
        ''shots'' @ str_tuple (shots self),
        str_tuple (occupied_orbitals self)]"

text \<open>
  \<^verbatim>\<open>__hash__\<close> is \<^verbatim>\<open>hash((KitaevHamiltonianTask, self.filename))\<close>. Python's
  built-in hash of the pair of the class object and a string is the parameter
  \<open>hash_class_str\<close>.
\<close>

definition task_hash :: "(string \<Rightarrow> int) \<Rightarrow> KitaevHamiltonianTask \<Rightarrow> int" where
  "task_hash hash_class_str self = hash_class_str (filename self)"

section \<open>Properties of the edge correlation estimator\<close>














section \<open>Properties of the Hamiltonian builder\<close>

lemma map2_same: "map2 h (map f xs) (map g xs) = map (\<lambda>x. h (f x) (g x)) xs"
  by (induction xs) auto

lemma mat_add_tab:
  "mat_add (map (\<lambda>i. map (f i) js) is) (map (\<lambda>i. map (g i) js) is) =
   map (\<lambda>i. map (\<lambda>j. f i j + g i j) js) is"
  by (simp add: mat_add_def map2_same)

lemma mat_sub_tab:
  "mat_sub (map (\<lambda>i. map (f i) js) is) (map (\<lambda>i. map (g i) js) is) =
   map (\<lambda>i. map (\<lambda>j. f i j - g i j) js) is"
  by (simp add: mat_sub_def map2_same)

lemma scalar_mul_tab:
  "scalar_mul c (map (\<lambda>i. map (f i) js) is) = map (\<lambda>i. map (\<lambda>j. c * f i j) js) is"
  by (simp add: scalar_mul_def)

lemma tab_cong:
  "(\<And>i j. i < n \<Longrightarrow> j < n \<Longrightarrow> f i j = g i j) \<Longrightarrow>
   map (\<lambda>i. map (f i) [0..<n]) [0..<n] = map (\<lambda>i. map (g i) [0..<n]) [0..<n]"
  by simp

lemma np_diag_ones_upper:
  "0 < n \<Longrightarrow> np_diag (replicate (nat (n - 1)) 1) 1 =
     map (\<lambda>i. map (\<lambda>j. if j = i + 1 then 1 else 0) [0..<nat n]) [0..<nat n]"
proof -
  assume n: "0 < n"
  then have len: "nat (n - 1) + nat \<bar>1::int\<bar> = nat n" by simp
  show ?thesis
    unfolding np_diag_def Let_def length_replicate len
    by (rule tab_cong) auto
qed

lemma np_diag_ones_lower:
  "0 < n \<Longrightarrow> np_diag (replicate (nat (n - 1)) 1) (- 1) =
     map (\<lambda>i. map (\<lambda>j. if i = j + 1 then 1 else 0) [0..<nat n]) [0..<nat n]"
proof -
  assume n: "0 < n"
  then have len: "nat (n - 1) + nat \<bar>- 1::int\<bar> = nat n" by simp
  show ?thesis
    unfolding np_diag_def Let_def length_replicate len
    by (rule tab_cong) auto
qed

lemma kitaev_general:
  assumes "0 < n"
  shows "kitaev_hamiltonian n t delta mu =
           Inr \<lparr>hermitian_part = tridiagonal (nat n) (- t) mu (- t),
                antisymmetric_part = tridiagonal (nat n) (- delta) 0 delta\<rparr>"
proof -
  have h: "mat_add (scalar_mul (- t)
             (mat_add (np_diag (replicate (nat (n - 1)) 1) 1)
                      (np_diag (replicate (nat (n - 1)) 1) (- 1))))
             (scalar_mul mu (map (\<lambda>i. map (\<lambda>j. if i = j then 1 else 0) [0..<nat n]) [0..<nat n]))
           = tridiagonal (nat n) (- t) mu (- t)"
    unfolding np_diag_ones_upper [OF assms] np_diag_ones_lower [OF assms]
      mat_add_tab scalar_mul_tab tridiagonal_def
    by (rule tab_cong) auto
  have a: "scalar_mul delta
             (mat_sub (np_diag (replicate (nat (n - 1)) 1) 1)
                      (np_diag (replicate (nat (n - 1)) 1) (- 1)))
           = tridiagonal (nat n) (- delta) 0 delta"
    unfolding np_diag_ones_upper [OF assms] np_diag_ones_lower [OF assms]
      mat_sub_tab scalar_mul_tab tridiagonal_def
    by (rule tab_cong) auto
  from assms show ?thesis
    by (simp add: kitaev_hamiltonian_def np_eye_def np_ones_def Let_def h a)
qed

lemma upt4: "[0..<4] = [0, 1, 2, 3]"
  by (simp add: upt_rec)

text \<open>
  Claim C1. For \<open>n_modes > 0\<close>, \<^verbatim>\<open>kitaev_hamiltonian\<close> returns the pair whose
  hermitian part has \<open>-t\<close> on the super-diagonal and on the sub-diagonal and \<open>mu\<close> on
  the diagonal, and whose antisymmetric part has \<open>Delta\<close> on the super-diagonal and
  \<open>-Delta\<close> on the sub-diagonal; the instance with four modes, \<open>t = 1\<close>,
  \<open>Delta = 0.5\<close> and \<open>mu = 0\<close> is written out.
\<close>

theorem kitaev_hamiltonian_matrices:
  "(0 < n \<longrightarrow>
      kitaev_hamiltonian n t delta mu =
        Inr \<lparr>hermitian_part = tridiagonal (nat n) (- t) mu (- t),
             antisymmetric_part = tridiagonal (nat n) (- delta) 0 delta\<rparr>)
   \<and> kitaev_hamiltonian 4 1 0.5 0 =
        Inr \<lparr>hermitian_part = [[0, - 1, 0, 0], [- 1, 0, - 1, 0], [0, - 1, 0, - 1], [0, 0, - 1, 0]],
             antisymmetric_part =
               [[0, 0.5, 0, 0], [- 0.5, 0, 0.5, 0], [0, - 0.5, 0, 0.5], [0, 0, - 0.5, 0]]\<rparr>"
proof (intro conjI impI)
  assume "0 < n"
  then show "kitaev_hamiltonian n t delta mu =
        Inr \<lparr>hermitian_part = tridiagonal (nat n) (- t) mu (- t),
             antisymmetric_part = tridiagonal (nat n) (- delta) 0 delta\<rparr>"
    by (rule kitaev_general)
next
  have "kitaev_hamiltonian 4 1 0.5 0 =
          Inr \<lparr>hermitian_part = tridiagonal (nat 4) (- 1) 0 (- 1),
               antisymmetric_part = tridiagonal (nat 4) (- 0.5) 0 0.5\<rparr>"
    by (rule kitaev_general) simp
  then show "kitaev_hamiltonian 4 1 0.5 0 =
        Inr \<lparr>hermitian_part = [[0, - 1, 0, 0], [- 1, 0, - 1, 0], [0, - 1, 0, - 1], [0, 0, - 1, 0]],
             antisymmetric_part =
               [[0, 0.5, 0, 0], [- 0.5, 0, 0.5, 0], [0, - 0.5, 0, 0.5], [0, 0, - 0.5, 0]]\<rparr>"
    by (simp add: tridiagonal_def upt4)
qed

text \<open>
  The theorem at two modes, \<open>t = 3\<close>, \<open>Delta = 5\<close>, \<open>mu = 7\<close>.
\<close>

theorem kitaev_hamiltonian_matrices_witness:
  "kitaev_hamiltonian 2 3 5 7 =
     Inr \<lparr>hermitian_part = [[7, - 3], [- 3, 7]], antisymmetric_part = [[0, 5], [- 5, 0]]\<rparr>"
proof -
  have u: "[0..<2] = [0, 1]" by (simp add: upt_rec)
  from kitaev_hamiltonian_matrices [of 2 3 5 7] show ?thesis
    by (simp add: tridiagonal_def u)
qed

section \<open>Properties of the Bogoliubov-de Gennes matrix\<close>

lemma mat_shape_length: "mat_shape r c A \<Longrightarrow> length A = r"
  by (simp add: mat_shape_def)

lemma mat_shape_row: "mat_shape r c A \<Longrightarrow> i < r \<Longrightarrow> length (A ! i) = c"
  by (simp add: mat_shape_def list_all_length)

lemma mat_shapeI:
  "length A = r \<Longrightarrow> (\<And>i. i < r \<Longrightarrow> length (A ! i) = c) \<Longrightarrow> mat_shape r c A"
  by (simp add: mat_shape_def list_all_length)

lemma ncols_shape: "mat_shape r c A \<Longrightarrow> 0 < r \<Longrightarrow> ncols A = c"
  by (cases A) (auto simp: mat_shape_def ncols_def)

lemma mat_shape_neg_conj: "mat_shape r c A \<Longrightarrow> mat_shape r c (mat_neg (mat_conj A))"
  by (simp add: mat_shape_def mat_neg_def mat_conj_def list_all_length)

lemma neg_conj_nth:
  "i < length A \<Longrightarrow> j < length (A ! i) \<Longrightarrow> mat_neg (mat_conj A) ! i ! j = - cnj (A ! i ! j)"
  by (simp add: mat_neg_def mat_conj_def)

lemma hstack_shape:
  assumes "mat_shape r c A" and "mat_shape r d B"
  shows "hstack A B = Inr (map2 (@) A B)" and "mat_shape r (c + d) (map2 (@) A B)"
  using assms by (auto simp: hstack_def mat_shape_def list_all_length)

lemma hstack_nth:
  assumes "mat_shape r c A" and "mat_shape r d B" and "i < r"
  shows "map2 (@) A B ! i ! j = (if j < c then A ! i ! j else B ! i ! (j - c))"
  using assms by (auto simp: mat_shape_def list_all_length nth_append)

lemma vstack_shape:
  assumes "mat_shape r c A" and "mat_shape r c B"
  shows "vstack A B = Inr (A @ B)" and "mat_shape (r + r) c (A @ B)"
proof -
  show "vstack A B = Inr (A @ B)"
  proof (cases "r = 0")
    case True
    with assms show ?thesis by (simp add: vstack_def mat_shape_def)
  next
    case False
    with assms show ?thesis by (simp add: vstack_def ncols_shape)
  qed
  from assms show "mat_shape (r + r) c (A @ B)"
    by (simp add: mat_shape_def)
qed

lemma bdg_value:
  assumes "mat_shape n n H" and "mat_shape n n A"
  shows "bdg_hamiltonian \<lparr>hermitian_part = H, antisymmetric_part = A\<rparr> = Inr (bdg_blocks H A)"
    and "mat_shape (2 * n) (2 * n) (bdg_blocks H A)"
proof -
  note nH = mat_shape_neg_conj [OF assms(1)] and nA = mat_shape_neg_conj [OF assms(2)]
  have top: "mat_shape n (n + n) (map2 (@) (mat_neg (mat_conj H)) (mat_neg (mat_conj A)))"
    by (rule hstack_shape(2) [OF nH nA])
  have bot: "mat_shape n (n + n) (map2 (@) A H)"
    by (rule hstack_shape(2) [OF assms(2) assms(1)])
  show "bdg_hamiltonian \<lparr>hermitian_part = H, antisymmetric_part = A\<rparr> = Inr (bdg_blocks H A)"
    by (simp add: bdg_hamiltonian_def np_block_def bdg_blocks_def
        hstack_shape(1) [OF nH nA] hstack_shape(1) [OF assms(2) assms(1)]
        vstack_shape(1) [OF top bot])
  from vstack_shape(2) [OF top bot] show "mat_shape (2 * n) (2 * n) (bdg_blocks H A)"
    by (simp add: bdg_blocks_def mult_2)
qed

lemma bdg_blocks_nth:
  assumes "mat_shape n n H" and "mat_shape n n A" and "i < 2 * n" and "j < 2 * n"
  shows "bdg_blocks H A ! i ! j =
           (if i < n then (if j < n then - cnj (H ! i ! j) else - cnj (A ! i ! (j - n)))
            else (if j < n then A ! (i - n) ! j else H ! (i - n) ! (j - n)))"
proof -
  note nH = mat_shape_neg_conj [OF assms(1)] and nA = mat_shape_neg_conj [OF assms(2)]
  have ltop: "length (map2 (@) (mat_neg (mat_conj H)) (mat_neg (mat_conj A))) = n"
    using nH nA by (simp add: mat_shape_def)
  show ?thesis
  proof (cases "i < n")
    case True
    have "bdg_blocks H A ! i ! j =
          map2 (@) (mat_neg (mat_conj H)) (mat_neg (mat_conj A)) ! i ! j"
      using True ltop by (simp add: bdg_blocks_def nth_append)
    also have "\<dots> = (if j < n then mat_neg (mat_conj H) ! i ! j
                      else mat_neg (mat_conj A) ! i ! (j - n))"
      by (rule hstack_nth [OF nH nA True])
    also have "\<dots> = (if j < n then - cnj (H ! i ! j) else - cnj (A ! i ! (j - n)))"
      using True assms
      by (auto simp: neg_conj_nth mat_shape_length mat_shape_row)
    finally show ?thesis using True by simp
  next
    case False
    with assms(3) have i: "i - n < n" by simp
    have "bdg_blocks H A ! i ! j = map2 (@) A H ! (i - n) ! j"
      using False ltop by (simp add: bdg_blocks_def nth_append)
    also have "\<dots> = (if j < n then A ! (i - n) ! j else H ! (i - n) ! (j - n))"
      by (rule hstack_nth [OF assms(2) assms(1) i])
    finally show ?thesis using False by simp
  qed
qed

text \<open>
  Claim C2. For \<open>n\<close> by \<open>n\<close> parts \<open>H\<close> and \<open>A\<close>, \<^verbatim>\<open>bdg_hamiltonian\<close> returns
  the \<open>2n\<close> by \<open>2n\<close> matrix whose top row of blocks is \<open>- conj H\<close>, \<open>- conj A\<close>
  and whose bottom row is \<open>A\<close>, \<open>H\<close>.
\<close>

theorem bdg_hamiltonian_blocks:
  assumes "mat_shape n n H" and "mat_shape n n A"
  shows "\<exists>M. bdg_hamiltonian \<lparr>hermitian_part = H, antisymmetric_part = A\<rparr> = Inr M
           \<and> mat_shape (2 * n) (2 * n) M
           \<and> (\<forall>i<n. \<forall>j<n. M ! i ! j = - cnj (H ! i ! j)
                            \<and> M ! i ! (n + j) = - cnj (A ! i ! j)
                            \<and> M ! (n + i) ! j = A ! i ! j
                            \<and> M ! (n + i) ! (n + j) = H ! i ! j)"
proof (intro exI conjI allI impI)
  show "bdg_hamiltonian \<lparr>hermitian_part = H, antisymmetric_part = A\<rparr> = Inr (bdg_blocks H A)"
    by (rule bdg_value(1) [OF assms])
  show "mat_shape (2 * n) (2 * n) (bdg_blocks H A)"
    by (rule bdg_value(2) [OF assms])
next
  fix i j assume "i < n" and "j < n"
  then show "bdg_blocks H A ! i ! j = - cnj (H ! i ! j)"
    and "bdg_blocks H A ! i ! (n + j) = - cnj (A ! i ! j)"
    and "bdg_blocks H A ! (n + i) ! j = A ! i ! j"
    and "bdg_blocks H A ! (n + i) ! (n + j) = H ! i ! j"
    by (simp_all add: bdg_blocks_nth [OF assms])
qed

text \<open>
  The theorem at a two by two pair.
\<close>

theorem bdg_hamiltonian_blocks_witness:
  "bdg_hamiltonian \<lparr>hermitian_part = [[1, \<i>], [- \<i>, 2]],
                    antisymmetric_part = [[0, 1 + \<i>], [- 1 - \<i>, 0]]\<rparr> =
     Inr [[- 1, \<i>, 0, - 1 + \<i>],
          [- \<i>, - 2, 1 - \<i>, 0],
          [0, 1 + \<i>, 1, \<i>],
          [- 1 - \<i>, 0, - \<i>, 2]]"
proof -
  let ?H = "[[1, \<i>], [- \<i>, 2]]" and ?A = "[[0, 1 + \<i>], [- 1 - \<i>, 0]]"
  have h: "mat_shape 2 2 ?H" and a: "mat_shape 2 2 ?A" by (simp_all add: mat_shape_def)
  from bdg_hamiltonian_blocks [OF h a] show ?thesis
    by (simp add: bdg_hamiltonian_def np_block_def hstack_def vstack_def ncols_def
        mat_neg_def mat_conj_def)
qed

lemma conj_transpose_nth:
  assumes "mat_shape n n M" and "i < n" and "j < n"
  shows "mat_conj (mat_transpose M) ! i ! j = cnj (M ! j ! i)"
proof -
  from assms have nc: "ncols M = n" by (simp add: ncols_shape)
  from assms have len: "length M = n" by (simp add: mat_shape_length)
  show ?thesis using assms(2,3) by (simp add: mat_conj_def mat_transpose_def nc len)
qed

lemma transpose_shape:
  assumes "mat_shape n n M"
  shows "mat_shape n n (mat_transpose M)"
proof (cases "n = 0")
  case True
  with assms show ?thesis by (simp add: mat_shape_def mat_transpose_def ncols_def)
next
  case False
  with assms have nc: "ncols M = n" by (simp add: ncols_shape)
  from assms have len: "length M = n" by (simp add: mat_shape_length)
  show ?thesis by (rule mat_shapeI) (simp_all add: mat_transpose_def nc len)
qed

lemma conj_shape: "mat_shape r c M \<Longrightarrow> mat_shape r c (mat_conj M)"
  by (simp add: mat_shape_def mat_conj_def list_all_length)

lemma mat_eqI:
  assumes "mat_shape r c A" and "mat_shape r c B"
    and "\<And>i j. i < r \<Longrightarrow> j < c \<Longrightarrow> A ! i ! j = B ! i ! j"
  shows "A = B"
proof (rule nth_equalityI)
  from assms(1,2) show "length A = length B" by (simp add: mat_shape_length)
next
  fix i assume "i < length A"
  with assms(1) have i: "i < r" by (simp add: mat_shape_length)
  show "A ! i = B ! i"
  proof (rule nth_equalityI)
    from i assms(1,2) show "length (A ! i) = length (B ! i)" by (simp add: mat_shape_row)
  next
    fix j assume "j < length (A ! i)"
    with i assms(1) have "j < c" by (simp add: mat_shape_row)
    with i show "A ! i ! j = B ! i ! j" by (rule assms(3))
  qed
qed

lemma hermitian_entries:
  assumes "mat_shape n n M" and "is_hermitian M" and "i < n" and "j < n"
  shows "M ! i ! j = cnj (M ! j ! i)"
proof -
  from assms(2) have "M = mat_conj (mat_transpose M)"
    by (simp only: is_hermitian_def)
  then have "M ! i ! j = mat_conj (mat_transpose M) ! i ! j"
    by (rule arg_cong)
  also have "\<dots> = cnj (M ! j ! i)"
    by (rule conj_transpose_nth [OF assms(1,3,4)])
  finally show ?thesis .
qed

lemma hermitianI:
  assumes "mat_shape n n M" and "\<And>i j. i < n \<Longrightarrow> j < n \<Longrightarrow> M ! i ! j = cnj (M ! j ! i)"
  shows "is_hermitian M"
  unfolding is_hermitian_def
proof (rule mat_eqI [OF assms(1)])
  show "mat_shape n n (mat_conj (mat_transpose M))"
    by (rule conj_shape [OF transpose_shape [OF assms(1)]])
next
  fix i j assume ij: "i < n" "j < n"
  have "mat_conj (mat_transpose M) ! i ! j = cnj (M ! j ! i)"
    by (rule conj_transpose_nth [OF assms(1) ij])
  also have "\<dots> = M ! i ! j"
    by (rule assms(2) [OF ij, symmetric])
  finally show "M ! i ! j = mat_conj (mat_transpose M) ! i ! j" by (rule sym)
qed

lemma antisymmetric_entries:
  assumes "mat_shape n n A" and "is_antisymmetric A" and "i < n" and "j < n"
  shows "A ! j ! i = - (A ! i ! j)"
proof -
  from assms(1,3,4) have nc: "ncols A = n" by (simp add: ncols_shape)
  from assms(1) have len: "length A = n" by (simp add: mat_shape_length)
  from assms(1,3) have row: "length (A ! i) = n" by (simp add: mat_shape_row)
  have "mat_transpose A ! i ! j = A ! j ! i"
    using assms(3,4) by (simp add: mat_transpose_def nc len)
  moreover have "mat_neg A ! i ! j = - (A ! i ! j)"
    using assms(3,4) by (simp add: mat_neg_def len row)
  ultimately show ?thesis using assms(2) by (simp add: is_antisymmetric_def)
qed

text \<open>
  Claim C6. When \<open>H\<close> equals its conjugate transpose and the transpose of \<open>A\<close> is
  \<open>- A\<close>, the matrix returned by \<^verbatim>\<open>bdg_hamiltonian\<close> equals its own conjugate
  transpose.
\<close>

theorem bdg_hamiltonian_hermitian:
  assumes "mat_shape n n H" and "mat_shape n n A"
    and "is_hermitian H" and "is_antisymmetric A"
  shows "\<exists>M. bdg_hamiltonian \<lparr>hermitian_part = H, antisymmetric_part = A\<rparr> = Inr M
           \<and> is_hermitian M"
proof (intro exI conjI)
  show "bdg_hamiltonian \<lparr>hermitian_part = H, antisymmetric_part = A\<rparr> = Inr (bdg_blocks H A)"
    by (rule bdg_value(1) [OF assms(1,2)])
  show "is_hermitian (bdg_blocks H A)"
  proof (rule hermitianI [OF bdg_value(2) [OF assms(1,2)]])
    fix i j assume i: "i < 2 * n" and j: "j < 2 * n"
    note h = hermitian_entries [OF assms(1,3)]
    note a = antisymmetric_entries [OF assms(2,4)]
    consider "i < n" "j < n" | "i < n" "\<not> j < n" | "\<not> i < n" "j < n" | "\<not> i < n" "\<not> j < n"
      by blast
    then show "bdg_blocks H A ! i ! j = cnj (bdg_blocks H A ! j ! i)"
    proof cases
      case 1
      then show ?thesis
        using h [of j i] by (simp add: bdg_blocks_nth [OF assms(1,2) i j] bdg_blocks_nth [OF assms(1,2) j i])
    next
      case 2
      with j have "j - n < n" by simp
      with 2 show ?thesis
        using a [of i "j - n"]
        by (simp add: bdg_blocks_nth [OF assms(1,2) i j] bdg_blocks_nth [OF assms(1,2) j i])
    next
      case 3
      with i have "i - n < n" by simp
      with 3 show ?thesis
        using a [of "i - n" j]
        by (simp add: bdg_blocks_nth [OF assms(1,2) i j] bdg_blocks_nth [OF assms(1,2) j i])
    next
      case 4
      with i j have "i - n < n" "j - n < n" by simp_all
      with 4 show ?thesis
        using h [of "i - n" "j - n"]
        by (simp add: bdg_blocks_nth [OF assms(1,2) i j] bdg_blocks_nth [OF assms(1,2) j i])
    qed
  qed
qed

text \<open>
  The theorem at a two by two pair, with the four by four result written out.
\<close>

theorem bdg_hamiltonian_hermitian_witness:
  "is_hermitian [[1, \<i>], [- \<i>, 2]] \<and> is_antisymmetric [[0, 1 + \<i>], [- 1 - \<i>, 0]]
   \<and> bdg_hamiltonian \<lparr>hermitian_part = [[1, \<i>], [- \<i>, 2]],
                       antisymmetric_part = [[0, 1 + \<i>], [- 1 - \<i>, 0]]\<rparr> =
       Inr [[- 1, \<i>, 0, - 1 + \<i>],
            [- \<i>, - 2, 1 - \<i>, 0],
            [0, 1 + \<i>, 1, \<i>],
            [- 1 - \<i>, 0, - \<i>, 2]]
   \<and> is_hermitian [[- 1, \<i>, 0, - 1 + \<i>],
            [- \<i>, - 2, 1 - \<i>, 0],
            [0, 1 + \<i>, 1, \<i>],
            [- 1 - \<i>, 0, - \<i>, 2]]"
proof -
  let ?H = "[[1, \<i>], [- \<i>, 2]]" and ?A = "[[0, 1 + \<i>], [- 1 - \<i>, 0]]"
  have u: "[0..<2] = [0, 1]" by (simp add: upt_rec)
  have h: "mat_shape 2 2 ?H" and a: "mat_shape 2 2 ?A" by (simp_all add: mat_shape_def)
  have hh: "is_hermitian ?H"
    by (simp add: is_hermitian_def mat_conj_def mat_transpose_def ncols_def u)
  have aa: "is_antisymmetric ?A"
    by (simp add: is_antisymmetric_def mat_neg_def mat_transpose_def ncols_def u)
  have v: "bdg_hamiltonian \<lparr>hermitian_part = ?H, antisymmetric_part = ?A\<rparr> =
       Inr [[- 1, \<i>, 0, - 1 + \<i>],
            [- \<i>, - 2, 1 - \<i>, 0],
            [0, 1 + \<i>, 1, \<i>],
            [- 1 - \<i>, 0, - \<i>, 2]]"
    by (simp add: bdg_hamiltonian_def np_block_def hstack_def vstack_def ncols_def
        mat_neg_def mat_conj_def)
  from bdg_hamiltonian_hermitian [OF h a hh aa] hh aa v show ?thesis by simp
qed

section \<open>Properties of the Hamiltonian estimator\<close>

lemma filter_upt_Suc:
  "length (filter P [0..<Suc n]) = (if P 0 then 1 else 0) + length (filter (\<lambda>k. P (Suc k)) [0..<n])"
proof -
  have "[0..<Suc n] = 0 # map Suc [0..<n]"
    by (simp add: upt_conv_Cons map_Suc_upt del: upt_Suc)
  then show ?thesis by (simp add: filter_map comp_def del: upt_Suc)
qed

lemma masked_parity_value:
  "masked_parity ps i bs =
     (if bs = [] \<or> i + length bs \<le> length ps
      then Inr (length (filter (\<lambda>k. ps ! (i + k) \<and> bs ! k = CHR ''1'') [0..<length bs]))
      else Inl IndexError)"
proof (induction bs arbitrary: i)
  case Nil
  then show ?case by simp
next
  case (Cons b bs)
  show ?case
  proof (cases "length ps \<le> i")
    case True
    then show ?thesis by simp
  next
    case False
    show ?thesis
    proof (cases "bs = [] \<or> Suc i + length bs \<le> length ps")
      case True
      with False have ok: "i + length (b # bs) \<le> length ps" by auto
      from True False ok show ?thesis
        unfolding masked_parity.simps Cons.IH [of "Suc i"] length_Cons filter_upt_Suc
        by simp
    next
      case False
      then show ?thesis
        unfolding masked_parity.simps Cons.IH [of "Suc i"]
        by auto
    qed
  qed
qed

lemma masked_parity_0:
  "masked_parity ps 0 bs =
     (if length bs \<le> length ps then Inr (flagged_ones ps bs) else Inl IndexError)"
  unfolding masked_parity_value flagged_ones_def by auto

lemma term_loop_value:
  "term_loop ps acc counts =
     (if fits_mask ps counts
      then Inr (acc + (\<Sum>(bitstring, count) \<leftarrow> counts.
                         (- 1) ^ flagged_ones ps bitstring * of_int count))
      else Inl IndexError)"
proof (induction counts arbitrary: acc)
  case Nil
  then show ?case by simp
next
  case (Cons p counts)
  obtain b c where p: "p = (b, c)" by (cases p)
  show ?case unfolding p by (simp add: masked_parity_0 Cons.IH)
qed

lemma mask_statistic_cases:
  obtains (index) "\<not> fits_mask ps counts" "mask_statistic ps counts = Inl IndexError"
          "\<And>acc. term_loop ps acc counts = Inl IndexError"
  | (zero) "sum_values counts = 0" "mask_statistic ps counts = Inl ZeroDivisionError"
          "\<exists>v. term_loop ps 0 counts = Inr v"
  | (val) v where "sum_values counts \<noteq> 0" "mask_statistic ps counts = Inr v"
          "term_loop ps 0 counts = Inr (v * of_int (sum_values counts))"
proof (cases "fits_mask ps counts")
  case False
  then show ?thesis by (intro index) (simp_all add: mask_statistic_def term_loop_value)
next
  case True
  show ?thesis
  proof (cases "sum_values counts = 0")
    case z: True
    with True show ?thesis by (intro zero) (simp_all add: mask_statistic_def term_loop_value)
  next
    case nz: False
    with True show ?thesis
      by (intro val [of "(\<Sum>(bitstring, count) \<leftarrow> counts.
                   (- 1) ^ flagged_ones ps bitstring * of_int count)
                / of_int (sum_values counts)"])
         (simp_all add: mask_statistic_def term_loop_value)
  qed
qed

lemma select_step:
  "(case term_loop ps 0 counts of
      Inl e \<Rightarrow> Inl e
    | Inr term_expectation \<Rightarrow>
        if sum_values counts = 0 then Inl ZeroDivisionError
        else G (acc + c * complex_of_real (term_expectation / of_int (sum_values counts)))) =
   (case mask_statistic ps counts of
      Inl e \<Rightarrow> Inl e
    | Inr v \<Rightarrow> G (acc + c * complex_of_real v))"
proof (cases ps counts rule: mask_statistic_cases)
  case index
  then show ?thesis by simp
next
  case zero
  then show ?thesis by auto
next
  case (val v)
  then show ?thesis by simp
qed

lemma hamiltonian_loop_value:
  "hamiltonian_loop counts_z (sum_values counts_z) counts_x (sum_values counts_x) acc h =
     sum_contributions acc (map (term_contribution counts_z counts_x) h)"
proof (induction h arbitrary: acc)
  case Nil
  then show ?case by simp
next
  case (Cons tc h)
  obtain t c where tc: "tc = (t, c)" by (cases tc)
  let ?G = "\<lambda>a. hamiltonian_loop counts_z (sum_values counts_z) counts_x (sum_values counts_x) a h"
  consider "np_any (pauli_z t)" | "\<not> np_any (pauli_z t)" "np_any (pauli_x t)"
    | "\<not> np_any (pauli_z t)" "\<not> np_any (pauli_x t)" by blast
  then show ?case
  proof cases
    case 1
    then have tcv: "term_contribution counts_z counts_x (t, c) =
        (case mask_statistic (pauli_z t) counts_z of
           Inl e \<Rightarrow> Inl e | Inr v \<Rightarrow> Inr (c * complex_of_real v))"
      by (simp add: term_contribution_def)
    from 1 have "hamiltonian_loop counts_z (sum_values counts_z) counts_x (sum_values counts_x)
                   acc ((t, c) # h) =
        (case mask_statistic (pauli_z t) counts_z of
           Inl e \<Rightarrow> Inl e | Inr v \<Rightarrow> ?G (acc + c * complex_of_real v))"
      by (simp add: select_step [where G = ?G])
    also have "\<dots> = sum_contributions acc (map (term_contribution counts_z counts_x) ((t, c) # h))"
      unfolding list.map tcv
      by (cases "mask_statistic (pauli_z t) counts_z") (simp_all add: Cons.IH)
    finally show ?thesis unfolding tc .
  next
    case 2
    then have tcv: "term_contribution counts_z counts_x (t, c) =
        (case mask_statistic (pauli_x t) counts_x of
           Inl e \<Rightarrow> Inl e | Inr v \<Rightarrow> Inr (c * complex_of_real v))"
      by (simp add: term_contribution_def)
    from 2 have "hamiltonian_loop counts_z (sum_values counts_z) counts_x (sum_values counts_x)
                   acc ((t, c) # h) =
        (case mask_statistic (pauli_x t) counts_x of
           Inl e \<Rightarrow> Inl e | Inr v \<Rightarrow> ?G (acc + c * complex_of_real v))"
      by (simp add: select_step [where G = ?G])
    also have "\<dots> = sum_contributions acc (map (term_contribution counts_z counts_x) ((t, c) # h))"
      unfolding list.map tcv
      by (cases "mask_statistic (pauli_x t) counts_x") (simp_all add: Cons.IH)
    finally show ?thesis unfolding tc .
  next
    case 3
    then have tcv: "term_contribution counts_z counts_x (t, c) = Inr c"
      by (simp add: term_contribution_def)
    from 3 show ?thesis
      unfolding tc list.map tcv by (simp add: Cons.IH)
  qed
qed

text \<open>
  Claim C4. \<^verbatim>\<open>compute_measure_hamiltonian\<close> is the real part of the sum of the
  contributions of its terms, and every term is dispatched on its Z mask first: a term
  with a Z factor is evaluated against \<open>counts_z\<close>, normalised by the sum of
  \<open>counts_z\<close>, with its Z mask, whatever its X mask is; a term with no Z factor and an
  X factor is evaluated against \<open>counts_x\<close> with its X mask; a term with neither
  contributes its coefficient.
\<close>

theorem hamiltonian_dispatch:
  "compute_measure_hamiltonian counts_z counts_x hamiltonian =
     (case sum_contributions 0 (map (term_contribution counts_z counts_x) hamiltonian) of
        Inl e \<Rightarrow> Inl e
      | Inr v \<Rightarrow> Inr (Re v))
   \<and> (np_any (pauli_z t) \<longrightarrow>
        term_contribution counts_z counts_x (t, c) =
          (case mask_statistic (pauli_z t) counts_z of
             Inl e \<Rightarrow> Inl e | Inr v \<Rightarrow> Inr (c * complex_of_real v)))
   \<and> (\<not> np_any (pauli_z t) \<longrightarrow> np_any (pauli_x t) \<longrightarrow>
        term_contribution counts_z counts_x (t, c) =
          (case mask_statistic (pauli_x t) counts_x of
             Inl e \<Rightarrow> Inl e | Inr v \<Rightarrow> Inr (c * complex_of_real v)))
   \<and> (\<not> np_any (pauli_z t) \<longrightarrow> \<not> np_any (pauli_x t) \<longrightarrow>
        term_contribution counts_z counts_x (t, c) = Inr c)"
  by (simp add: compute_measure_hamiltonian_def Let_def hamiltonian_loop_value
      term_contribution_def)

text \<open>
  The theorem at a Hamiltonian of three terms: one with both a Z and an X factor, one
  with an X factor only, and the identity term.
\<close>

theorem hamiltonian_dispatch_witness:
  "compute_measure_hamiltonian [(''01'', 3), (''11'', 1)] [(''00'', 1)]
     [(Pauli [True, False] [True, False], 2),
      (Pauli [False, False] [False, True], 3),
      (Pauli [False, False] [False, False], 1 + \<i>)] = Inr 5
   \<and> term_contribution [(''01'', 3), (''11'', 1)] [(''00'', 1)]
        (Pauli [True, False] [True, False], 2) = Inr 1
   \<and> term_contribution [(''01'', 3), (''11'', 1)] [(''00'', 1)]
        (Pauli [False, False] [False, True], 3) = Inr 3
   \<and> term_contribution [(''01'', 3), (''11'', 1)] [(''00'', 1)]
        (Pauli [False, False] [False, False], 1 + \<i>) = Inr (1 + \<i>)"
proof -
  let ?cz = "[(''01'', 3), (''11'', 1 :: int)]" and ?cx = "[(''00'', 1 :: int)]"
  have u: "[0..<2] = [0, 1]" by (simp add: upt_rec)
  have z: "mask_statistic [True, False] ?cz = Inr (1 / 2)"
    by (simp add: mask_statistic_def sum_values_def flagged_ones_def u)
  have x: "mask_statistic [False, True] ?cx = Inr 1"
    by (simp add: mask_statistic_def sum_values_def flagged_ones_def u)
  have a: "term_contribution ?cz ?cx (Pauli [True, False] [True, False], 2) = Inr 1"
    using hamiltonian_dispatch [of ?cz ?cx "[]" "Pauli [True, False] [True, False]" 2]
    by (simp add: z)
  have b: "term_contribution ?cz ?cx (Pauli [False, False] [False, True], 3) = Inr 3"
    using hamiltonian_dispatch [of ?cz ?cx "[]" "Pauli [False, False] [False, True]" 3]
    by (simp add: x)
  have c: "term_contribution ?cz ?cx (Pauli [False, False] [False, False], 1 + \<i>) = Inr (1 + \<i>)"
    using hamiltonian_dispatch [of ?cz ?cx "[]" "Pauli [False, False] [False, False]" "1 + \<i>"]
    by simp
  have "compute_measure_hamiltonian ?cz ?cx
     [(Pauli [True, False] [True, False], 2),
      (Pauli [False, False] [False, True], 3),
      (Pauli [False, False] [False, False], 1 + \<i>)] = Inr 5"
    using hamiltonian_dispatch [of ?cz ?cx "[(Pauli [True, False] [True, False], 2),
      (Pauli [False, False] [False, True], 3),
      (Pauli [False, False] [False, False], 1 + \<i>)]" "Pauli [] []" 0]
    by (simp add: a b c)
  with a b c show ?thesis by simp
qed










section \<open>Properties of the task descriptor\<close>


































text \<open>
  Claim C8. Two tasks whose float fields print to the same strings with two decimals
  and whose other fields are equal have identical filenames and equal hash values.
\<close>

theorem filename_rounding_collision:
  assumes "experiment_id a = experiment_id b" and "n_modes a = n_modes b"
    and "occupied_orbitals a = occupied_orbitals b" and "shots a = shots b"
    and "format_2f (tunneling a) = format_2f (tunneling b)"
    and "format_2f (superconducting a) = format_2f (superconducting b)"
    and "format_2f (chemical_potential a) = format_2f (chemical_potential b)"
  shows "filename a = filename b \<and> task_hash h a = task_hash h b"
  using assms by (simp add: filename_def task_hash_def)

text \<open>
  The theorem at the doubles nearest to \<open>1.001\<close> and \<open>1.004\<close>, which are
  \<open>2254051613498933 / 2^51\<close> and \<open>2260807012939989 / 2^51\<close>.
\<close>

theorem filename_rounding_collision_witness:
  "(2254051613498933 / 2251799813685248 :: real) \<noteq> 2260807012939989 / 2251799813685248
   \<and> format_2f (2254051613498933 / 2251799813685248) = ''1.00''
   \<and> format_2f (2260807012939989 / 2251799813685248) = ''1.00''
   \<and> filename \<lparr>experiment_id = ''exp'', n_modes = 4,
                tunneling = 2254051613498933 / 2251799813685248, superconducting = 1 / 2,
                chemical_potential = 0, occupied_orbitals = [0, 1], shots = [1000]\<rparr>
     = filename \<lparr>experiment_id = ''exp'', n_modes = 4,
                tunneling = 2260807012939989 / 2251799813685248, superconducting = 1 / 2,
                chemical_potential = 0, occupied_orbitals = [0, 1], shots = [1000]\<rparr>
   \<and> task_hash length
        \<lparr>experiment_id = ''exp'', n_modes = 4,
         tunneling = 2254051613498933 / 2251799813685248, superconducting = 1 / 2,
         chemical_potential = 0, occupied_orbitals = [0, 1], shots = [1000]\<rparr>
     = task_hash length
        \<lparr>experiment_id = ''exp'', n_modes = 4,
         tunneling = 2260807012939989 / 2251799813685248, superconducting = 1 / 2,
         chemical_potential = 0, occupied_orbitals = [0, 1], shots = [1000]\<rparr>"
proof -
  have a: "format_2f (2254051613498933 / 2251799813685248) = ''1.00''"
    by (simp add: format_2f_def round_half_even_def Let_def str_nat.simps digit_char_def)
  have b: "format_2f (2260807012939989 / 2251799813685248) = ''1.00''"
    by (simp add: format_2f_def round_half_even_def Let_def str_nat.simps digit_char_def)
  from filename_rounding_collision
    [of "\<lparr>experiment_id = ''exp'', n_modes = 4,
         tunneling = 2254051613498933 / 2251799813685248, superconducting = 1 / 2,
         chemical_potential = 0, occupied_orbitals = [0, 1], shots = [1000]\<rparr>"
        "\<lparr>experiment_id = ''exp'', n_modes = 4,
         tunneling = 2260807012939989 / 2251799813685248, superconducting = 1 / 2,
         chemical_potential = 0, occupied_orbitals = [0, 1], shots = [1000]\<rparr>" length] a b
  show ?thesis by simp
qed

end
